theory Spec2Isabelle
  imports
    Complex_Main
    "HOL-Library.Word"
    "HOL-Library.AList"
    "HOL-Library.Char_ord"
    "HOL-Library.List_Lexorder"
    "HOL-Library.Sublist"
begin

section \<open>Python values and exceptions\<close>

text \<open>
  The module \<^verbatim>\<open>cdf2cim/io_manager.py\<close> is Python 2 code (it uses \<^verbatim>\<open>basestring\<close> and
  \<^verbatim>\<open>unicode\<close>).  The values that reach it are the entries of a map/reduce output and the
  search criteria of the file locator.  They are modelled by a closed universe: the plain
  Python scalars, lists, and the two numpy scalar types that \<^verbatim>\<open>encode\<close> inspects.

  A Python float is an IEEE double: a finite number, an infinity or a NaN.  The finite
  ones are embedded in the reals; the only arithmetic the module performs on them is the
  truncation of \<^verbatim>\<open>int(value)\<close>.
\<close>

datatype pyfloat = Finite real | PosInf | NegInf | NaN

datatype pyval =
    PNone
  | PBool bool
  | PInt int
  | PFloat pyfloat
  | PStr string
  | PList "pyval list"
  | NpFloat64 pyfloat
  | NpInt32 "32 word"

datatype pyerror =
    TypeError
  | ValueError
  | OverflowError
  | KeyError
  | IOError
  | OSError
  | InvalidFileSearchCriteria pyval

text \<open>A dict (and an \<^verbatim>\<open>OrderedDict\<close>) with string keys: its items in iteration order.\<close>

type_synonym pydict = "(string \<times> pyval) list"

definition dict_keys :: "pydict \<Rightarrow> string list" where
  "dict_keys d = map fst d"

definition dict_get :: "pydict \<Rightarrow> string \<Rightarrow> pyerror + pyval" where
  "dict_get d k = (case map_of d k of None \<Rightarrow> Inl KeyError | Some v \<Rightarrow> Inr v)"

text \<open>
  \<^verbatim>\<open>result[k] = v\<close> on an \<^verbatim>\<open>OrderedDict\<close>: a present key keeps its position, a new key
  goes to the end.
\<close>

definition dict_set :: "pydict \<Rightarrow> string \<Rightarrow> pyval \<Rightarrow> pydict" where
  "dict_set d k v = AList.update k v d"

subsection \<open>The built-ins the module calls\<close>

definition isinstance_float64 :: "pyval \<Rightarrow> bool" where
  "isinstance_float64 v = (case v of NpFloat64 _ \<Rightarrow> True | _ \<Rightarrow> False)"

definition isinstance_int32 :: "pyval \<Rightarrow> bool" where
  "isinstance_int32 v = (case v of NpInt32 _ \<Rightarrow> True | _ \<Rightarrow> False)"

definition isinstance_basestring :: "pyval \<Rightarrow> bool" where
  "isinstance_basestring v = (case v of PStr _ \<Rightarrow> True | _ \<Rightarrow> False)"

text \<open>\<^verbatim>\<open>isinstance(v, collections.Iterable)\<close>: strings and lists are iterable, scalars are not.\<close>

definition isinstance_Iterable :: "pyval \<Rightarrow> bool" where
  "isinstance_Iterable v = (case v of PStr _ \<Rightarrow> True | PList _ \<Rightarrow> True | _ \<Rightarrow> False)"

definition endswith :: "string \<Rightarrow> string \<Rightarrow> bool" where
  "endswith s suf = (take (length suf) (rev s) = rev suf)"

definition startswith :: "string \<Rightarrow> string \<Rightarrow> bool" where
  "startswith s pre = (take (length pre) s = pre)"

text \<open>\<^verbatim>\<open>int(x)\<close> on a float truncates towards zero; infinities and NaN raise.\<close>

definition py_trunc :: "real \<Rightarrow> int" where
  "py_trunc r = (if 0 \<le> r then \<lfloor>r\<rfloor> else \<lceil>r\<rceil>)"

definition int_of_float :: "pyfloat \<Rightarrow> pyerror + pyval" where
  "int_of_float f =
     (case f of
        Finite r \<Rightarrow> Inr (PInt (py_trunc r))
      | PosInf \<Rightarrow> Inl OverflowError
      | NegInf \<Rightarrow> Inl OverflowError
      | NaN \<Rightarrow> Inl ValueError)"

text \<open>
  \<^verbatim>\<open>int(s)\<close> on a string, base 10: surrounding whitespace is stripped, one sign is allowed,
  and what remains must be a non-empty run of decimal digits.
\<close>

definition is_space :: "char \<Rightarrow> bool" where
  "is_space c = (c \<in> set [CHR '' '', CHR 0x09, CHR 0x0A, CHR 0x0B, CHR 0x0C, CHR 0x0D])"

definition strip :: "string \<Rightarrow> string" where
  "strip s = rev (dropWhile is_space (rev (dropWhile is_space s)))"

definition is_digit :: "char \<Rightarrow> bool" where
  "is_digit c = (CHR ''0'' \<le> c \<and> c \<le> CHR ''9'')"

definition digit_val :: "char \<Rightarrow> int" where
  "digit_val c = int (of_char c) - 48"

definition parse_digits :: "string \<Rightarrow> pyerror + int" where
  "parse_digits ds =
     (if ds \<noteq> [] \<and> list_all is_digit ds
      then Inr (foldl (\<lambda>a c. 10 * a + digit_val c) 0 ds)
      else Inl ValueError)"

definition int_of_str :: "string \<Rightarrow> pyerror + pyval" where
  "int_of_str s =
     (case strip s of
        [] \<Rightarrow> Inl ValueError
      | c # ds \<Rightarrow>
          (if c = CHR ''-'' then
             (case parse_digits ds of Inl e \<Rightarrow> Inl e | Inr n \<Rightarrow> Inr (PInt (- n)))
           else if c = CHR ''+'' then
             (case parse_digits ds of Inl e \<Rightarrow> Inl e | Inr n \<Rightarrow> Inr (PInt n))
           else
             (case parse_digits (c # ds) of Inl e \<Rightarrow> Inl e | Inr n \<Rightarrow> Inr (PInt n))))"

text \<open>The built-in \<^verbatim>\<open>int(value)\<close>: a plain integer, or the exception it raises.\<close>

fun py_int :: "pyval \<Rightarrow> pyerror + pyval" where
  "py_int PNone = Inl TypeError"
| "py_int (PBool b) = Inr (PInt (if b then 1 else 0))"
| "py_int (PInt n) = Inr (PInt n)"
| "py_int (PFloat f) = int_of_float f"
| "py_int (PStr s) = int_of_str s"
| "py_int (PList xs) = Inl TypeError"
| "py_int (NpFloat64 f) = int_of_float f"
| "py_int (NpInt32 w) = Inr (PInt (sint w))"

text \<open>\<^verbatim>\<open>float(value)\<close> is only ever applied to a \<^verbatim>\<open>numpy.float64\<close>, whose value it keeps.\<close>

fun py_float :: "pyval \<Rightarrow> pyerror + pyval" where
  "py_float (NpFloat64 f) = Inr (PFloat f)"
| "py_float (PFloat f) = Inr (PFloat f)"
| "py_float (PInt n) = Inr (PFloat (Finite (real_of_int n)))"
| "py_float (PBool b) = Inr (PFloat (Finite (if b then 1 else 0)))"
| "py_float (NpInt32 w) = Inr (PFloat (Finite (real_of_int (sint w))))"
| "py_float PNone = Inl TypeError"
| "py_float (PList xs) = Inl TypeError"
| "py_float (PStr s) = Inl ValueError"

section \<open>The archiver: \<^verbatim>\<open>encode\<close>\<close>

text \<open>
  The inner function \<^verbatim>\<open>_encode(key, value)\<close> of \<^verbatim>\<open>encode\<close>.  The branches are tried in the
  order of the source: the two type tests first, the key suffix third.
\<close>

definition encode_value :: "string \<Rightarrow> pyval \<Rightarrow> pyerror + pyval" where
  "encode_value key val =
     (if isinstance_float64 val then py_float val
      else if isinstance_int32 val then py_int val
      else if endswith key ''_index'' then py_int val
      else Inr val)"

text \<open>
  The loop \<^verbatim>\<open>for k in sorted(obj.keys()): result[k] = _encode(k, obj[k])\<close>, with the
  ordered dictionary built so far as accumulator.  The first exception ends the loop.
\<close>

fun encode_loop :: "pydict \<Rightarrow> string list \<Rightarrow> pydict \<Rightarrow> pyerror + pydict" where
  "encode_loop obj [] result = Inr result"
| "encode_loop obj (k # ks) result =
     (case dict_get obj k of
        Inl e \<Rightarrow> Inl e
      | Inr v \<Rightarrow>
          (case encode_value k v of
             Inl e \<Rightarrow> Inl e
           | Inr v' \<Rightarrow> encode_loop obj ks (dict_set result k v')))"

definition encode :: "pydict \<Rightarrow> pyerror + pydict" where
  "encode obj = encode_loop obj (sort (dict_keys obj)) []"

section \<open>The file system and the process state\<close>

text \<open>
  The file system is what \<^verbatim>\<open>os.path\<close>, \<^verbatim>\<open>os.listdir\<close> and \<^verbatim>\<open>open\<close> see of it: for every
  path string, the node the operating system finds when it resolves that string
  (relative to the working directory, symbolic links followed).  A path that resolves to
  nothing (an absent entry or a dangling link) has no node.  A directory carries the
  names \<^verbatim>\<open>os.listdir\<close> returns for it, a regular file its content and modification time.
\<close>

datatype node = RegFile string nat | Directory "string list"

datatype event = Mkdir string | Write string string | Warning string | CloseOneFile

record world =
  entries :: "string \<Rightarrow> node option"
  cwd :: string
  clock :: nat
  trace :: "event list"
  uuid_source :: "nat \<Rightarrow> string"
  uuid_count :: nat

definition exists :: "world \<Rightarrow> string \<Rightarrow> bool" where
  "exists w p = (case entries w p of None \<Rightarrow> False | Some _ \<Rightarrow> True)"

definition isfile :: "world \<Rightarrow> string \<Rightarrow> bool" where
  "isfile w p = (case entries w p of Some (RegFile _ _) \<Rightarrow> True | _ \<Rightarrow> False)"

definition isdir :: "world \<Rightarrow> string \<Rightarrow> bool" where
  "isdir w p = (case entries w p of Some (Directory _) \<Rightarrow> True | _ \<Rightarrow> False)"

definition listdir :: "world \<Rightarrow> string \<Rightarrow> pyerror + string list" where
  "listdir w p = (case entries w p of Some (Directory names) \<Rightarrow> Inr names | _ \<Rightarrow> Inl OSError)"

subsection \<open>\<^verbatim>\<open>posixpath\<close>\<close>

definition is_slash :: "char \<Rightarrow> bool" where
  "is_slash c = (c = CHR ''/'')"

definition isabs :: "string \<Rightarrow> bool" where
  "isabs s = startswith s ''/''"

text \<open>\<^verbatim>\<open>posixpath.join(a, b)\<close> with one component \<^verbatim>\<open>b\<close>.\<close>

definition join :: "string \<Rightarrow> string \<Rightarrow> string" where
  "join a b =
     (if startswith b ''/'' then b
      else if a = [] \<or> endswith a ''/'' then a @ b
      else a @ ''/'' @ b)"

definition rstrip_slash :: "string \<Rightarrow> string" where
  "rstrip_slash s = rev (dropWhile is_slash (rev s))"

text \<open>
  \<^verbatim>\<open>posixpath.dirname\<close>: everything up to and including the last slash, without its
  trailing slashes unless it consists of slashes only.
\<close>

definition dirname :: "string \<Rightarrow> string" where
  "dirname p =
     (let head = rev (dropWhile (\<lambda>c. \<not> is_slash c) (rev p))
      in if head \<noteq> [] \<and> \<not> list_all is_slash head then rstrip_slash head else head)"

definition basename :: "string \<Rightarrow> string" where
  "basename p = rev (takeWhile (\<lambda>c. \<not> is_slash c) (rev p))"

text \<open>\<^verbatim>\<open>path.split('/')\<close>.\<close>

fun split_slash :: "string \<Rightarrow> string list" where
  "split_slash [] = [[]]"
| "split_slash (c # cs) =
     (if is_slash c then [] # split_slash cs
      else (case split_slash cs of [] \<Rightarrow> [[c]] | x # xs \<Rightarrow> (c # x) # xs))"

text \<open>\<^verbatim>\<open>'/'.join(comps)\<close>.\<close>

fun slash_join :: "string list \<Rightarrow> string" where
  "slash_join [] = []"
| "slash_join [x] = x"
| "slash_join (x # y # ys) = x @ ''/'' @ slash_join (y # ys)"

text \<open>The component loop of \<^verbatim>\<open>posixpath.normpath\<close>: \<^verbatim>\<open>n\<close> is \<^verbatim>\<open>initial_slashes\<close>, \<^verbatim>\<open>part\<close> the loop variable \<^verbatim>\<open>comp\<close>, \<^verbatim>\<open>new_comps\<close> the accumulator.\<close>

fun norm_comps :: "nat \<Rightarrow> string list \<Rightarrow> string list \<Rightarrow> string list" where
  "norm_comps n [] new_comps = new_comps"
| "norm_comps n (part # comps) new_comps =
     (if part = [] \<or> part = ''.'' then norm_comps n comps new_comps
      else if part \<noteq> ''..'' \<or> (n = 0 \<and> new_comps = [])
              \<or> (new_comps \<noteq> [] \<and> last new_comps = ''..'')
      then norm_comps n comps (new_comps @ [part])
      else if new_comps \<noteq> [] then norm_comps n comps (butlast new_comps)
      else norm_comps n comps new_comps)"

definition initial_slashes :: "string \<Rightarrow> nat" where
  "initial_slashes path =
     (if startswith path ''/''
      then (if startswith path ''//'' \<and> \<not> startswith path ''///'' then 2 else 1)
      else 0)"

definition normpath :: "string \<Rightarrow> string" where
  "normpath path =
     (if path = [] then ''.''
      else
        (let n = initial_slashes path;
             comps = norm_comps n (split_slash path) [];
             p = replicate n CHR ''/'' @ slash_join comps
         in if p = [] then ''.'' else p))"

text \<open>\<^verbatim>\<open>os.path.abspath\<close>, with \<^verbatim>\<open>os.getcwd()\<close> read from the process state.\<close>

definition abspath :: "world \<Rightarrow> string \<Rightarrow> string" where
  "abspath w path = normpath (if isabs path then path else join (cwd w) path)"

subsection \<open>Writing: \<^verbatim>\<open>os.mkdir\<close> and \<^verbatim>\<open>open(path, 'w')\<close>\<close>

text \<open>The directory in which the operating system creates the last component of a path.\<close>

definition parent_dir :: "string \<Rightarrow> string" where
  "parent_dir p =
     (let q = rstrip_slash p;
          d = dirname (if q = [] then p else q)
      in if d = [] then ''.'' else d)"

definition add_name :: "(string \<Rightarrow> node option) \<Rightarrow> string \<Rightarrow> string \<Rightarrow> (string \<Rightarrow> node option)" where
  "add_name es d n =
     (case es d of
        Some (Directory names) \<Rightarrow> es(d \<mapsto> Directory (if n \<in> set names then names else names @ [n]))
      | _ \<Rightarrow> es)"

text \<open>
  \<^verbatim>\<open>os.mkdir\<close> is not recursive: it fails when the path exists already or when its parent
  is not a directory.
\<close>

definition os_mkdir :: "world \<Rightarrow> string \<Rightarrow> pyerror + world" where
  "os_mkdir w p =
     (if exists w p then Inl OSError
      else if \<not> isdir w (parent_dir p) then Inl OSError
      else Inr (w\<lparr>entries := (add_name (entries w) (parent_dir p) (basename (rstrip_slash p)))
                               (p \<mapsto> Directory []),
                  trace := trace w @ [Mkdir p]\<rparr>))"

text \<open>
  \<^verbatim>\<open>with open(path, 'w') as fstream: fstream.write(content)\<close>.  A directory cannot be
  opened for writing; an existing regular file is replaced; a new file needs its parent
  directory.  The write stamps the file with the current time, and time moves on.
\<close>

definition open_write :: "world \<Rightarrow> string \<Rightarrow> string \<Rightarrow> pyerror + world" where
  "open_write w p content =
     (case entries w p of
        Some (Directory _) \<Rightarrow> Inl IOError
      | Some (RegFile _ _) \<Rightarrow>
          Inr (w\<lparr>entries := (entries w)(p \<mapsto> RegFile content (clock w)),
                 clock := Suc (clock w),
                 trace := trace w @ [Write p content]\<rparr>)
      | None \<Rightarrow>
          (if isdir w (parent_dir p)
           then Inr (w\<lparr>entries := (add_name (entries w) (parent_dir p) (basename p))
                                      (p \<mapsto> RegFile content (clock w)),
                       clock := Suc (clock w),
                       trace := trace w @ [Write p content]\<rparr>)
           else Inl IOError))"

text \<open>\<^verbatim>\<open>uuid.uuid4()\<close> draws the next token of the process's random source.\<close>

definition uuid4 :: "world \<Rightarrow> string \<times> world" where
  "uuid4 w = (uuid_source w (uuid_count w), w\<lparr>uuid_count := Suc (uuid_count w)\<rparr>)"

section \<open>The archiver: \<^verbatim>\<open>dump\<close>\<close>

text \<open>
  \<^verbatim>\<open>dump\<close> uses three things that are not defined in \<^verbatim>\<open>io_manager.py\<close>: the constant
  \<^verbatim>\<open>IO_DIR\<close> of \<^verbatim>\<open>cdf2cim.constants\<close>, the function \<^verbatim>\<open>hashifier.hashify\<close>, and the standard
  library's \<^verbatim>\<open>json.dumps(_, indent=4)\<close>, which raises on a value that is not JSON
  representable.  They are parameters of the model.
\<close>

record config =
  IO_DIR :: string
  hashify :: "pydict \<Rightarrow> string \<Rightarrow> string"
  json_dumps :: "pydict \<Rightarrow> pyerror + string"

definition dump :: "config \<Rightarrow> pydict \<Rightarrow> string \<Rightarrow> bool \<Rightarrow> world \<Rightarrow> (pyerror + string) \<times> world" where
  "dump cfg obj name overwrite w =
     (case (if \<not> isdir w (IO_DIR cfg) then os_mkdir w (IO_DIR cfg) else Inr w) of
        Inl e \<Rightarrow> (Inl e, w)
      | Inr w1 \<Rightarrow>
          (case encode obj of
             Inl e \<Rightarrow> (Inl e, w1)
           | Inr metadata \<Rightarrow>
               (case json_dumps cfg metadata of
                  Inl e \<Rightarrow> (Inl e, w1)
                | Inr metadata_json \<Rightarrow>
                    (let (fname, w2) =
                           (if name = ''md5'' then (hashify cfg metadata metadata_json, w1)
                            else uuid4 w1);
                         fpath = join (IO_DIR cfg) (fname @ ''.json'')
                     in if \<not> isfile w2 fpath \<or> overwrite
                        then (case open_write w2 fpath metadata_json of
                                Inl e \<Rightarrow> (Inl e, w2)
                              | Inr w3 \<Rightarrow> (Inr fpath, w3))
                        else (Inr fpath, w2)))))"

section \<open>The locator: \<^verbatim>\<open>yield_files\<close> and \<^verbatim>\<open>yield_cf_files\<close>\<close>

text \<open>
  \<^verbatim>\<open>os.walk(top, followlinks=True)\<close>, top down and with no error handler: a directory that
  cannot be listed contributes nothing; the names of a listing are split by
  \<^verbatim>\<open>isdir(join(top, name))\<close> (\<open>topdir\<close> below is \<^verbatim>\<open>top\<close>), and every directory among them is walked in turn, links
  included.  On a cyclic link structure the walk need not end, so the model counts the
  levels it may descend: \<open>None\<close> means that the fuel did not suffice.
\<close>

fun walk :: "world \<Rightarrow> nat \<Rightarrow> string \<Rightarrow> (string \<times> string list \<times> string list) list option" where
  "walk w 0 topdir = None"
| "walk w (Suc n) topdir =
     (case listdir w topdir of
        Inl e \<Rightarrow> Some []
      | Inr names \<Rightarrow>
          (let dirs = filter (\<lambda>name. isdir w (join topdir name)) names;
               nondirs = filter (\<lambda>name. \<not> isdir w (join topdir name)) names
           in map_option (\<lambda>below. (topdir, dirs, nondirs) # concat below)
                (those (map (\<lambda>name. walk w n (join topdir name)) dirs))))"

text \<open>
  A Python set of strings is the list of its elements in iteration order.  The order in
  which \<^verbatim>\<open>set(criteria)\<close> iterates is decided by the interpreter's hashing; it is the
  parameter \<open>order\<close> of \<open>yield_files\<close>, which maps the list given to \<^verbatim>\<open>set()\<close> to the
  elements of the set in that order.  Removing an element leaves the order of the others.
\<close>

definition well_ordered :: "(string list \<Rightarrow> string list) \<Rightarrow> bool" where
  "well_ordered order = (\<forall>xs. distinct (order xs) \<and> set (order xs) = set xs)"

text \<open>
  The loop \<^verbatim>\<open>for target in sorted(criteria): if os.path.dirname(target) in criteria:
  criteria.remove(target)\<close>.  The membership test reads the set as the earlier
  iterations have left it.
\<close>

fun dedupe :: "string list \<Rightarrow> string list \<Rightarrow> string list" where
  "dedupe [] criteria = criteria"
| "dedupe (target # targets) criteria =
     dedupe targets
       (if dirname target \<in> set criteria then removeAll target criteria else criteria)"

text \<open>
  The nested loops \<^verbatim>\<open>for folder, _, fnames in os.walk(...): for fname in fnames: yield
  os.path.abspath(os.path.join(folder, fname))\<close> over the triples of a walk.
\<close>

definition walk_files :: "world \<Rightarrow> (string \<times> string list \<times> string list) list \<Rightarrow> string list" where
  "walk_files w triples =
     concat (map (\<lambda>(folder, _, fnames). map (\<lambda>fname. abspath w (join folder fname)) fnames) triples)"

text \<open>What one target of the final loop yields.\<close>

definition yield_target :: "world \<Rightarrow> nat \<Rightarrow> string \<Rightarrow> string list option" where
  "yield_target w fuel target =
     (if isfile w target then Some [abspath w target]
      else if isdir w target then map_option (walk_files w) (walk w fuel target)
      else Some [])"

fun yield_targets :: "world \<Rightarrow> nat \<Rightarrow> string list \<Rightarrow> string list option" where
  "yield_targets w fuel [] = Some []"
| "yield_targets w fuel (target # targets) =
     (case yield_target w fuel target of
        None \<Rightarrow> None
      | Some paths \<Rightarrow> map_option ((@) paths) (yield_targets w fuel targets))"

text \<open>The elements of a collection, and those of them that are strings.\<close>

fun items :: "pyval \<Rightarrow> pyval list" where
  "items (PList xs) = xs"
| "items (PStr s) = map (\<lambda>c. PStr [c]) s"
| "items _ = []"

definition strings_of :: "pyval list \<Rightarrow> string list" where
  "strings_of xs = List.map_filter (\<lambda>v. case v of PStr s \<Rightarrow> Some s | _ \<Rightarrow> None) xs"

text \<open>
  \<^verbatim>\<open>yield_files(criteria)\<close>: the paths the generator yields, in order, or the exception it
  raises.  All three \<^verbatim>\<open>raise\<close> statements precede the first \<^verbatim>\<open>yield\<close>, so an exception
  comes with no path.
\<close>

definition yield_files ::
  "(string list \<Rightarrow> string list) \<Rightarrow> world \<Rightarrow> nat \<Rightarrow> pyval \<Rightarrow> (pyerror + string list) option" where
  "yield_files order w fuel criteria0 =
     (let criteria = (if isinstance_basestring criteria0 then PList [criteria0] else criteria0)
      in if \<not> isinstance_Iterable criteria then Some (Inl (InvalidFileSearchCriteria criteria))
         else if filter (\<lambda>i. \<not> isinstance_basestring i) (items criteria) \<noteq> []
           then Some (Inl (InvalidFileSearchCriteria criteria))
         else if filter (\<lambda>i. \<not> exists w i) (strings_of (items criteria)) \<noteq> []
           then Some (Inl (InvalidFileSearchCriteria criteria))
         else
           (let criteria_set = order (strings_of (items criteria))
            in map_option Inr
                 (yield_targets w fuel (dedupe (sort criteria_set) criteria_set))))"

text \<open>
  \<^verbatim>\<open>yield_cf_files\<close>.  The reader \<^verbatim>\<open>cf.read\<close> is an external collaborator: a function from a
  path to a handle or to the exception it raises.  The loop returns the handles it
  yields, the exception that ended it (if any), and the process state, in which the
  warnings logged and the handles released are recorded.
\<close>

definition log_warning :: "world \<Rightarrow> string \<Rightarrow> world" where
  "log_warning w msg = w\<lparr>trace := trace w @ [Warning msg]\<rparr>"

definition close_one_file :: "world \<Rightarrow> world" where
  "close_one_file w = w\<lparr>trace := trace w @ [CloseOneFile]\<rparr>"

fun cf_loop :: "(string \<Rightarrow> pyerror + 'f) \<Rightarrow> string list \<Rightarrow> world \<Rightarrow> 'f list \<times> pyerror option \<times> world" where
  "cf_loop cf_read [] w = ([], None, w)"
| "cf_loop cf_read (fpath # fpaths) w =
     (case cf_read fpath of
        Inl e \<Rightarrow>
          (if e = IOError \<or> e = OSError
           then cf_loop cf_read fpaths (log_warning w (''Non netCDF file rejected: '' @ fpath))
           else ([], Some e, w))
      | Inr cf_file \<Rightarrow>
          (case cf_loop cf_read fpaths (close_one_file w) of
             (cf_files, e, w') \<Rightarrow> (cf_file # cf_files, e, w')))"

definition yield_cf_files ::
  "(string list \<Rightarrow> string list) \<Rightarrow> (string \<Rightarrow> pyerror + 'f) \<Rightarrow> world \<Rightarrow> nat \<Rightarrow> pyval
     \<Rightarrow> ('f list \<times> pyerror option \<times> world) option" where
  "yield_cf_files order cf_read w fuel targets =
     (case yield_files order w fuel targets of
        None \<Rightarrow> None
      | Some (Inl e) \<Rightarrow> Some ([], Some e, w)
      | Some (Inr fpaths) \<Rightarrow> Some (cf_loop cf_read fpaths w))"

section \<open>Notions used by the properties\<close>

text \<open>\<^verbatim>\<open>encode(encode(obj))\<close>: an exception of the inner call is the result.\<close>

definition encode_twice :: "pydict \<Rightarrow> pyerror + pydict" where
  "encode_twice obj = (case encode obj of Inl e \<Rightarrow> Inl e | Inr c \<Rightarrow> encode c)"

text \<open>
  A record is canonical when its keys are strictly ascending and \<^verbatim>\<open>_encode\<close> returns
  each of its values as it is.
\<close>

definition canonical :: "pydict \<Rightarrow> bool" where
  "canonical c = (sorted (map fst c) \<and> distinct (map fst c)
                  \<and> list_all (\<lambda>(k, v). encode_value k v = Inr v) c)"

text \<open>The file writes a process has performed, and the regular files of its file system.\<close>

definition is_Write :: "event \<Rightarrow> bool" where
  "is_Write ev = (case ev of Write _ _ \<Rightarrow> True | _ \<Rightarrow> False)"

definition writes :: "world \<Rightarrow> event list" where
  "writes w = filter is_Write (trace w)"

definition files_of :: "world \<Rightarrow> string \<Rightarrow> (string \<times> nat) option" where
  "files_of w p = (case entries w p of Some (RegFile c t) \<Rightarrow> Some (c, t) | _ \<Rightarrow> None)"

subsection \<open>Path structure\<close>










subsection \<open>Concrete inputs\<close>

definition obj_ex :: pydict where
  "obj_ex = [(''realization_index'', PStr ''1''), (''mip_era'', PStr ''CMIP6'')]"

definition cfg_ex :: config where
  "cfg_ex = \<lparr>IO_DIR = ''/home/u/.cdf2cim'',
             hashify = (\<lambda>metadata metadata_json. concat (map fst metadata)),
             json_dumps = (\<lambda>metadata. Inr (''{'' @ concat (map fst metadata) @ ''}''))\<rparr>"

text \<open>A home directory in which nothing has been archived yet.\<close>

definition w_fresh :: world where
  "w_fresh = \<lparr>entries = [''/home/u'' \<mapsto> Directory []],
              cwd = ''/home/u'', clock = 7, trace = [],
              uuid_source = (\<lambda>n. ''uuid'' @ replicate n CHR ''x''), uuid_count = 0\<rparr>"

text \<open>The same home directory with the artifact of \<open>obj_ex\<close> in place, written at time 3.\<close>

definition w_archived :: world where
  "w_archived =
     \<lparr>entries = [''/home/u'' \<mapsto> Directory [''.cdf2cim''],
                 ''/home/u/.cdf2cim'' \<mapsto> Directory [''mip_erarealization_index.json''],
                 ''/home/u/.cdf2cim/mip_erarealization_index.json''
                    \<mapsto> RegFile ''{mip_erarealization_index}'' 3],
      cwd = ''/home/u'', clock = 7, trace = [],
      uuid_source = (\<lambda>n. ''uuid'' @ replicate n CHR ''x''), uuid_count = 0\<rparr>"

text \<open>A root directory that holds one regular file.\<close>

definition w_root :: world where
  "w_root = \<lparr>entries = [''/'' \<mapsto> Directory [''f''], ''/f'' \<mapsto> RegFile ''data'' 0],
            cwd = ''/'', clock = 1, trace = [], uuid_source = (\<lambda>n. ''uuid''), uuid_count = 0\<rparr>"

text \<open>
  The example of the specification: \<^verbatim>\<open>/data/run1\<close> holds \<^verbatim>\<open>a.nc\<close>, \<^verbatim>\<open>b.nc\<close> and \<^verbatim>\<open>c.txt\<close>, and the
  reader accepts \<^verbatim>\<open>.nc\<close> files only.
\<close>

definition w_run1 :: world where
  "w_run1 = \<lparr>entries = [''/data/run1'' \<mapsto> Directory [''a.nc'', ''b.nc'', ''c.txt''],
                        ''/data/run1/a.nc'' \<mapsto> RegFile ''CDF'' 0,
                        ''/data/run1/b.nc'' \<mapsto> RegFile ''CDF'' 0,
                        ''/data/run1/c.txt'' \<mapsto> RegFile ''text'' 0],
            cwd = ''/data'', clock = 1, trace = [], uuid_source = (\<lambda>n. ''uuid''), uuid_count = 0\<rparr>"

definition nc_reader :: "string \<Rightarrow> pyerror + string" where
  "nc_reader fpath = (if endswith fpath ''.nc'' then Inr fpath else Inl IOError)"





lemmas value_defs =
  dict_keys_def dict_get_def dict_set_def isinstance_float64_def isinstance_int32_def
  isinstance_basestring_def isinstance_Iterable_def endswith_def startswith_def py_trunc_def
  int_of_float_def is_space_def strip_def is_digit_def digit_val_def parse_digits_def
  int_of_str_def encode_value_def encode_def encode_twice_def

lemmas path_defs =
  is_slash_def isabs_def join_def rstrip_slash_def dirname_def basename_def
  initial_slashes_def normpath_def abspath_def parent_dir_def startswith_def endswith_def

lemmas fs_defs =
  exists_def isfile_def isdir_def listdir_def add_name_def os_mkdir_def open_write_def
  uuid4_def

lemmas locator_defs =
  yield_files_def yield_cf_files_def yield_target_def walk_files_def strings_of_def
  List.map_filter_simps
  log_warning_def close_one_file_def

section \<open>Properties of \<^verbatim>\<open>encode\<close>\<close>

lemma int_of_float_PInt: "int_of_float f = Inr v \<Longrightarrow> \<exists>n. v = PInt n"
  by (auto simp: int_of_float_def split: pyfloat.splits)

lemma int_of_str_PInt: "int_of_str s = Inr v \<Longrightarrow> \<exists>n. v = PInt n"
  by (auto simp: int_of_str_def split: list.splits if_splits sum.splits)

lemma py_int_PInt: "py_int v = Inr v' \<Longrightarrow> \<exists>n. v' = PInt n"
  by (cases v) (auto dest: int_of_float_PInt int_of_str_PInt)

lemma encode_value_PInt [simp]: "encode_value k (PInt n) = Inr (PInt n)"
  by (simp add: encode_value_def isinstance_float64_def isinstance_int32_def)

lemma encode_value_fixed:
  assumes "encode_value k v = Inr v'" and "\<not> (endswith k ''_index'' \<and> isinstance_float64 v)"
  shows "encode_value k v' = Inr v'"
proof (cases "isinstance_float64 v")
  case True
  then obtain f where "v = NpFloat64 f" by (cases v) (auto simp: isinstance_float64_def)
  then show ?thesis using assms
    by (auto simp: encode_value_def isinstance_float64_def isinstance_int32_def)
next
  case nf: False
  show ?thesis
  proof (cases "isinstance_int32 v \<or> endswith k ''_index''")
    case True
    then have "py_int v = Inr v'" using assms nf by (auto simp: encode_value_def split: if_splits)
    then show ?thesis using py_int_PInt by fastforce
  next
    case False
    then show ?thesis using assms nf by (auto simp: encode_value_def)
  qed
qed

lemma update_fresh: "k \<notin> fst ` set al \<Longrightarrow> AList.update k v al = al @ [(k, v)]"
  by (induction al) auto

lemma set_update_sub: "set (AList.update k v al) \<subseteq> insert (k, v) (set al)"
  by (induction al) auto

lemma encode_loop_canonical:
  assumes "encode_loop obj ks acc = Inr c"
    and "sorted (map fst acc @ ks)"
    and "distinct (map fst acc)"
    and "list_all (\<lambda>(k, v). encode_value k v = Inr v) acc"
    and "\<And>k v. map_of obj k = Some v \<Longrightarrow> \<not> (endswith k ''_index'' \<and> isinstance_float64 v)"
  shows "canonical c"
  using assms(1-4)
proof (induction ks arbitrary: acc)
  case Nil
  then show ?case by (simp add: canonical_def)
next
  case (Cons k ks)
  from Cons.prems(1) obtain v v' where
    v: "map_of obj k = Some v" and v': "encode_value k v = Inr v'"
    and rest: "encode_loop obj ks (AList.update k v' acc) = Inr c"
    by (auto simp: dict_get_def dict_set_def split: option.splits sum.splits)
  have fx: "encode_value k v' = Inr v'"
    using encode_value_fixed[OF v'] assms(5)[OF v] by blast
  have keys: "map fst (AList.update k v' acc) = (if k \<in> set (map fst acc) then map fst acc else map fst acc @ [k])"
    by (rule update_keys)
  have s: "sorted (map fst (AList.update k v' acc) @ ks)"
    using Cons.prems(2) by (auto simp: keys sorted_append)
  have d: "distinct (map fst (AList.update k v' acc))"
    using Cons.prems(3) by (simp add: distinct_update)
  have f: "list_all (\<lambda>(k, v). encode_value k v = Inr v) (AList.update k v' acc)"
    using Cons.prems(4) fx set_update_sub[of k v' acc] by (auto simp: list_all_iff)
  show ?case by (rule Cons.IH[OF rest s d f])
qed

lemma encode_loop_replay:
  assumes "distinct (map fst acc @ map fst c)"
    and "\<And>k v. (k, v) \<in> set c \<Longrightarrow> map_of obj k = Some v \<and> encode_value k v = Inr v"
  shows "encode_loop obj (map fst c) acc = Inr (acc @ c)"
  using assms
proof (induction c arbitrary: acc)
  case Nil
  then show ?case by simp
next
  case (Cons kv c)
  obtain k v where kv: "kv = (k, v)" by (cases kv)
  have a: "map_of obj k = Some v" "encode_value k v = Inr v"
    using Cons.prems(2)[of k v] kv by auto
  have fresh: "k \<notin> fst ` set acc" using Cons.prems(1) kv by auto
  have "encode_loop obj (map fst (kv # c)) acc = encode_loop obj (map fst c) (acc @ [(k, v)])"
    using a kv by (simp add: dict_get_def dict_set_def update_fresh[OF fresh])
  also have "\<dots> = Inr ((acc @ [(k, v)]) @ c)"
  proof (rule Cons.IH)
    show "distinct (map fst (acc @ [(k, v)]) @ map fst c)" using Cons.prems(1) kv by auto
    show "\<And>k' v'. (k', v') \<in> set c \<Longrightarrow> map_of obj k' = Some v' \<and> encode_value k' v' = Inr v'"
      using Cons.prems(2) by auto
  qed
  finally show ?case using kv by simp
qed

lemma encode_canonical: "canonical c \<Longrightarrow> encode c = Inr c"
proof -
  assume c: "canonical c"
  then have "sort (dict_keys c) = map fst c"
    by (simp add: canonical_def dict_keys_def sorted_sort_id)
  moreover have "encode_loop c (map fst c) [] = Inr ([] @ c)"
    using c by (intro encode_loop_replay) (auto simp: canonical_def list_all_iff)
  ultimately show ?thesis by (simp add: encode_def)
qed

text \<open>
  Claim C2, as the code has it.  \<^verbatim>\<open>encode\<close> is idempotent on every record in which no key
  ending in \<^verbatim>\<open>_index\<close> carries a \<^verbatim>\<open>numpy.float64\<close>: encoding the result of \<^verbatim>\<open>encode\<close> again
  returns the same ordered record, with the same keys in the same order and the same
  values of the same types; and when the first call raises, so does the double call,
  with the same exception.
\<close>

theorem encode_idempotent:
  assumes "\<forall>(k, v) \<in> set obj. endswith k ''_index'' \<longrightarrow> \<not> isinstance_float64 v"
  shows "encode_twice obj = encode obj"
proof (cases "encode obj")
  case (Inl e)
  then show ?thesis by (simp add: encode_twice_def)
next
  case (Inr c)
  have "canonical c"
  proof (rule encode_loop_canonical)
    show "encode_loop obj (sort (dict_keys obj)) [] = Inr c" using Inr by (simp add: encode_def)
    show "\<And>k v. map_of obj k = Some v \<Longrightarrow> \<not> (endswith k ''_index'' \<and> isinstance_float64 v)"
      using assms by (auto dest: map_of_SomeD)
  qed simp_all
  then show ?thesis using Inr by (simp add: encode_twice_def encode_canonical)
qed

theorem encode_idempotent_witness:
  "encode_twice obj_ex = encode obj_ex
   \<and> encode obj_ex = Inr [(''mip_era'', PStr ''CMIP6''), (''realization_index'', PInt 1)]"
proof -
  have h: "\<forall>(k, v) \<in> set obj_ex. endswith k ''_index'' \<longrightarrow> \<not> isinstance_float64 v"
    by (simp add: obj_ex_def isinstance_float64_def)
  have "encode obj_ex = Inr [(''mip_era'', PStr ''CMIP6''), (''realization_index'', PInt 1)]"
    by (simp add: obj_ex_def value_defs)
  with encode_idempotent[OF h] show ?thesis by simp
qed

text \<open>
  Claim C2 as stated fails: a \<^verbatim>\<open>numpy.float64\<close> under a key ending in \<^verbatim>\<open>_index\<close> becomes a
  plain float in the first pass (the type test comes first) and a plain integer in the
  second (now the key suffix decides).
\<close>

theorem encode_idempotent_counterexample:
  "encode_twice [(''foo_index'', NpFloat64 (Finite 3))] = Inr [(''foo_index'', PInt 3)]
   \<and> encode [(''foo_index'', NpFloat64 (Finite 3))] = Inr [(''foo_index'', PFloat (Finite 3))]
   \<and> encode_twice [(''foo_index'', NpFloat64 (Finite 3))] \<noteq> encode [(''foo_index'', NpFloat64 (Finite 3))]"
  by (simp add: encode_twice_def encode_def dict_keys_def dict_get_def dict_set_def encode_value_def
        isinstance_float64_def isinstance_int32_def endswith_def int_of_float_def py_trunc_def)

lemma encode_loop_entry:
  assumes "encode_loop obj ks acc = Inr c" and "(k, v') \<in> set c"
  shows "(k, v') \<in> set acc \<or> (\<exists>v. map_of obj k = Some v \<and> encode_value k v = Inr v')"
  using assms
proof (induction ks arbitrary: acc)
  case Nil
  then show ?case by simp
next
  case (Cons k0 ks)
  from Cons.prems(1) obtain v0 v0' where
    v: "map_of obj k0 = Some v0" and v': "encode_value k0 v0 = Inr v0'"
    and rest: "encode_loop obj ks (AList.update k0 v0' acc) = Inr c"
    by (auto simp: dict_get_def dict_set_def split: option.splits sum.splits)
  from Cons.IH[OF rest Cons.prems(2)] show ?case
    using set_update_sub[of k0 v0' acc] v v' by auto
qed

text \<open>
  Claim C5, as the code has it.  In the record \<^verbatim>\<open>encode\<close> returns, the value of a key ending
  in \<^verbatim>\<open>_index\<close> is a plain integer unless the input value was a \<^verbatim>\<open>numpy.float64\<close>, in which
  case it is a plain float: the type tests are tried before the key suffix.  In
  particular \<^verbatim>\<open>foo_index\<close> with the plain float 3.0 is encoded as the integer 3.
\<close>

theorem encode_index_key:
  "(\<forall>obj c k v'. encode obj = Inr c \<and> (k, v') \<in> set c \<and> endswith k ''_index'' \<longrightarrow>
      (\<exists>v. map_of obj k = Some v
         \<and> (if isinstance_float64 v then \<exists>f. v' = PFloat f else \<exists>n. v' = PInt n)))
   \<and> encode [(''foo_index'', PFloat (Finite 3))] = Inr [(''foo_index'', PInt 3)]"
proof -
  have a: "\<exists>v. map_of obj k = Some v
         \<and> (if isinstance_float64 v then \<exists>f. v' = PFloat f else \<exists>n. v' = PInt n)"
    if "encode obj = Inr c" "(k, v') \<in> set c" "endswith k ''_index''" for obj c k v'
  proof -
    from that(1,2) obtain v where v: "map_of obj k = Some v" "encode_value k v = Inr v'"
      using encode_loop_entry[of obj "sort (dict_keys obj)" "[]" c k v'] by (auto simp: encode_def)
    show ?thesis
    proof (cases "isinstance_float64 v")
      case True
      then obtain f where "v = NpFloat64 f" by (cases v) (auto simp: isinstance_float64_def)
      then show ?thesis using v by (auto simp: encode_value_def isinstance_float64_def)
    next
      case False
      then have "py_int v = Inr v'" using v that(3) by (auto simp: encode_value_def split: if_splits)
      then show ?thesis using v False py_int_PInt by auto
    qed
  qed
  have b: "encode [(''foo_index'', PFloat (Finite 3))] = Inr [(''foo_index'', PInt 3)]"
    by (simp add: encode_def dict_keys_def dict_get_def dict_set_def encode_value_def
        isinstance_float64_def isinstance_int32_def endswith_def int_of_float_def py_trunc_def)
  show ?thesis using a b by blast
qed

theorem encode_index_key_witness:
  "encode obj_ex = Inr [(''mip_era'', PStr ''CMIP6''), (''realization_index'', PInt 1)]
   \<and> (\<exists>v. map_of obj_ex ''realization_index'' = Some v
         \<and> (if isinstance_float64 v then \<exists>f. PInt 1 = PFloat f else \<exists>n. PInt 1 = PInt n))"
proof -
  have h: "encode obj_ex = Inr [(''mip_era'', PStr ''CMIP6''), (''realization_index'', PInt 1)]"
    by (simp add: obj_ex_def value_defs)
  have m: "(''realization_index'', PInt 1) \<in> set [(''mip_era'', PStr ''CMIP6''), (''realization_index'', PInt 1)]"
    by simp
  have e: "endswith ''realization_index'' ''_index''"
    by (simp add: endswith_def)
  from encode_index_key h m e show ?thesis by blast
qed

text \<open>
  Claim C5 as stated fails: \<^verbatim>\<open>foo_index\<close> with the \<^verbatim>\<open>numpy.float64\<close> 3.0 is encoded as the
  plain float 3.0, not as an integer.
\<close>

theorem encode_index_key_counterexample:
  "encode [(''foo_index'', NpFloat64 (Finite 3))] = Inr [(''foo_index'', PFloat (Finite 3))]
   \<and> (\<nexists>n. encode [(''foo_index'', NpFloat64 (Finite 3))] = Inr [(''foo_index'', PInt n)])"
  by (simp add: value_defs)

section \<open>Properties of \<^verbatim>\<open>dump\<close>\<close>

lemma isfile_open_write:
  "open_write w p c = Inr w' \<Longrightarrow> isfile w' p \<and> (isdir w d \<longrightarrow> isdir w' d)"
  by (auto simp: open_write_def isfile_def isdir_def add_name_def split: option.splits node.splits if_splits)

lemma writes_open_write:
  "open_write w p c = Inr w' \<Longrightarrow> writes w' = writes w @ [Write p c]"
  by (auto simp: open_write_def writes_def is_Write_def split: option.splits node.splits if_splits)

lemma isdir_os_mkdir:
  "os_mkdir w p = Inr w' \<Longrightarrow> isdir w' p \<and> writes w' = writes w \<and> files_of w' = files_of w"
  by (auto simp: os_mkdir_def isdir_def writes_def is_Write_def files_of_def add_name_def fun_eq_iff exists_def split: option.splits node.splits if_splits)

lemma uuid_os_mkdir:
  "os_mkdir w d = Inr w1 \<Longrightarrow> uuid_source w1 = uuid_source w \<and> uuid_count w1 = uuid_count w"
  by (auto simp: os_mkdir_def split: if_splits)

lemma uuid_open_write:
  "open_write w2 q c = Inr w3 \<Longrightarrow> uuid_count w3 = uuid_count w2"
  by (auto simp: open_write_def split: option.splits node.splits if_splits)

text \<open>
  Claim C1.  When \<^verbatim>\<open>dump\<close> with naming \<^verbatim>\<open>'md5'\<close> and \<^verbatim>\<open>overwrite=False\<close> has returned a path,
  the same call in the state it left returns the same path and changes nothing: no
  file's content or modification time, and no write is added to the trace.  The two
  calls together perform at most one write.
\<close>

theorem dump_twice:
  assumes "fst (dump cfg obj ''md5'' False w) = Inr p"
  shows "dump cfg obj ''md5'' False (snd (dump cfg obj ''md5'' False w)) = (Inr p, snd (dump cfg obj ''md5'' False w))
       \<and> length (writes (snd (dump cfg obj ''md5'' False w))) \<le> Suc (length (writes w))"
proof -
  obtain w1 where w1: "(if \<not> isdir w (IO_DIR cfg) then os_mkdir w (IO_DIR cfg) else Inr w) = Inr w1"
    using assms by (auto simp: dump_def split: sum.splits)
  obtain md where md: "encode obj = Inr md"
    using assms w1 by (auto simp: dump_def split: sum.splits)
  obtain js where js: "json_dumps cfg md = Inr js"
    using assms w1 md by (auto simp: dump_def split: sum.splits)
  have p: "p = join (IO_DIR cfg) (hashify cfg md js @ ''.json'')"
    using assms w1 md js by (auto simp: dump_def Let_def split: sum.splits if_splits)
  have d1: "isdir w1 (IO_DIR cfg)" and wr1: "writes w1 = writes w"
    using w1 isdir_os_mkdir by (auto split: if_splits)
  show ?thesis
  proof (cases "isfile w1 p")
    case True
    then have "dump cfg obj ''md5'' False w = (Inr p, w1)"
      using w1 md js p by (simp add: dump_def Let_def)
    moreover have "dump cfg obj ''md5'' False w1 = (Inr p, w1)"
      using d1 md js p True by (simp add: dump_def Let_def)
    ultimately show ?thesis using wr1 by simp
  next
    case False
    then obtain w3 where w3: "open_write w1 p js = Inr w3"
      using assms w1 md js p by (auto simp: dump_def Let_def split: sum.splits)
    have first: "dump cfg obj ''md5'' False w = (Inr p, w3)"
      using w1 md js p False w3 by (simp add: dump_def Let_def)
    have "isfile w3 p" "isdir w3 (IO_DIR cfg)"
      using isfile_open_write[OF w3] d1 by auto
    then have "dump cfg obj ''md5'' False w3 = (Inr p, w3)"
      using md js p by (simp add: dump_def Let_def)
    then show ?thesis using first writes_open_write[OF w3] wr1 by simp
  qed
qed

theorem dump_twice_witness:
  "fst (dump cfg_ex obj_ex ''md5'' False w_fresh)
     = Inr ''/home/u/.cdf2cim/mip_erarealization_index.json''
   \<and> dump cfg_ex obj_ex ''md5'' False (snd (dump cfg_ex obj_ex ''md5'' False w_fresh))
     = (Inr ''/home/u/.cdf2cim/mip_erarealization_index.json'',
        snd (dump cfg_ex obj_ex ''md5'' False w_fresh))
   \<and> length (writes (snd (dump cfg_ex obj_ex ''md5'' False w_fresh))) \<le> Suc (length (writes w_fresh))"
proof -
  have h: "fst (dump cfg_ex obj_ex ''md5'' False w_fresh)
             = Inr ''/home/u/.cdf2cim/mip_erarealization_index.json''"
    by (simp add: dump_def Let_def cfg_ex_def obj_ex_def w_fresh_def value_defs path_defs fs_defs)
  from dump_twice[OF h] h show ?thesis by blast
qed

text \<open>
  Claim C7.  When the output directory exists and a regular file stands at the path
  derived from the fingerprint, \<^verbatim>\<open>dump\<close> with \<^verbatim>\<open>overwrite=True\<close> writes the serialized record
  to that path again, whatever the file held: the file gets the current time as
  modification time and the write is added to the trace.
\<close>

theorem dump_overwrite:
  assumes "isdir w (IO_DIR cfg)"
    and "encode obj = Inr md"
    and "json_dumps cfg md = Inr js"
    and "isfile w (join (IO_DIR cfg) (hashify cfg md js @ ''.json''))"
  shows "dump cfg obj ''md5'' True w =
           (Inr (join (IO_DIR cfg) (hashify cfg md js @ ''.json'')),
            w\<lparr>entries := (entries w)(join (IO_DIR cfg) (hashify cfg md js @ ''.json'') \<mapsto> RegFile js (clock w)),
               clock := Suc (clock w),
               trace := trace w @ [Write (join (IO_DIR cfg) (hashify cfg md js @ ''.json'')) js]\<rparr>)"
  using assms
  by (auto simp: dump_def Let_def open_write_def isfile_def split: option.splits node.splits)

theorem dump_overwrite_witness:
  "isdir w_archived (IO_DIR cfg_ex)
   \<and> encode obj_ex = Inr [(''mip_era'', PStr ''CMIP6''), (''realization_index'', PInt 1)]
   \<and> files_of w_archived ''/home/u/.cdf2cim/mip_erarealization_index.json''
       = Some (''{mip_erarealization_index}'', 3)
   \<and> dump cfg_ex obj_ex ''md5'' True w_archived =
       (Inr ''/home/u/.cdf2cim/mip_erarealization_index.json'',
        w_archived\<lparr>entries := (entries w_archived)
                       (''/home/u/.cdf2cim/mip_erarealization_index.json''
                          \<mapsto> RegFile ''{mip_erarealization_index}'' 7),
                   clock := 8,
                   trace := [Write ''/home/u/.cdf2cim/mip_erarealization_index.json''
                                   ''{mip_erarealization_index}'']\<rparr>)"
proof -
  have d: "isdir w_archived (IO_DIR cfg_ex)"
    by (simp add: w_archived_def cfg_ex_def isdir_def)
  have e: "encode obj_ex = Inr [(''mip_era'', PStr ''CMIP6''), (''realization_index'', PInt 1)]"
    by (simp add: obj_ex_def value_defs)
  have j: "json_dumps cfg_ex [(''mip_era'', PStr ''CMIP6''), (''realization_index'', PInt 1)]
             = Inr ''{mip_erarealization_index}''"
    by (simp add: cfg_ex_def)
  have p: "join (IO_DIR cfg_ex)
             (hashify cfg_ex [(''mip_era'', PStr ''CMIP6''), (''realization_index'', PInt 1)]
                ''{mip_erarealization_index}'' @ ''.json'')
           = ''/home/u/.cdf2cim/mip_erarealization_index.json''"
    by (simp add: cfg_ex_def path_defs)
  have f: "isfile w_archived (join (IO_DIR cfg_ex)
             (hashify cfg_ex [(''mip_era'', PStr ''CMIP6''), (''realization_index'', PInt 1)]
                ''{mip_erarealization_index}'' @ ''.json''))"
    unfolding p by (simp add: w_archived_def isfile_def)
  have g: "files_of w_archived ''/home/u/.cdf2cim/mip_erarealization_index.json''
       = Some (''{mip_erarealization_index}'', 3)"
    by (simp add: w_archived_def files_of_def)
  have c: "clock w_archived = 7" "trace w_archived = []"
    by (simp_all add: w_archived_def)
  from dump_overwrite[OF d e j f] d e g show ?thesis
    unfolding p c by simp
qed

text \<open>
  Claim C9.  A naming mode other than \<^verbatim>\<open>'md5'\<close> is not inspected further: \<^verbatim>\<open>dump\<close> behaves
  exactly as it does for \<^verbatim>\<open>'uuid'\<close>, so no mode raises an error of its own, and a path it
  returns is named after the next token of the random source, which is consumed.
\<close>

theorem dump_unknown_mode:
  assumes "name \<noteq> ''md5''"
  shows "dump cfg obj name overwrite w = dump cfg obj ''uuid'' overwrite w
       \<and> (\<forall>p. fst (dump cfg obj name overwrite w) = Inr p \<longrightarrow>
              p = join (IO_DIR cfg) (uuid_source w (uuid_count w) @ ''.json'')
              \<and> uuid_count (snd (dump cfg obj name overwrite w)) = Suc (uuid_count w))"
proof -
  have a: "dump cfg obj name overwrite w = dump cfg obj ''uuid'' overwrite w"
    using assms by (simp add: dump_def split: sum.splits)
  have b: "p = join (IO_DIR cfg) (uuid_source w (uuid_count w) @ ''.json'')
              \<and> uuid_count (snd (dump cfg obj name overwrite w)) = Suc (uuid_count w)"
    if ok: "fst (dump cfg obj name overwrite w) = Inr p" for p
  proof -
    obtain w1 where w1: "(if \<not> isdir w (IO_DIR cfg) then os_mkdir w (IO_DIR cfg) else Inr w) = Inr w1"
      using ok by (auto simp: dump_def split: sum.splits)
    obtain md where md: "encode obj = Inr md"
      using ok w1 by (auto simp: dump_def split: sum.splits)
    obtain js where js: "json_dumps cfg md = Inr js"
      using ok w1 md by (auto simp: dump_def split: sum.splits)
    have u: "uuid_source w1 = uuid_source w" "uuid_count w1 = uuid_count w"
      using w1 uuid_os_mkdir by (auto split: if_splits)
    define w2 where "w2 = w1\<lparr>uuid_count := Suc (uuid_count w1)\<rparr>"
    define fp where "fp = join (IO_DIR cfg) (uuid_source w1 (uuid_count w1) @ ''.json'')"
    have d: "dump cfg obj name overwrite w =
          (if \<not> isfile w2 fp \<or> overwrite
           then (case open_write w2 fp js of Inl e \<Rightarrow> (Inl e, w2) | Inr w3 \<Rightarrow> (Inr fp, w3))
           else (Inr fp, w2))"
      unfolding w2_def fp_def using assms w1 md js by (simp add: dump_def Let_def uuid4_def)
    show ?thesis
    proof (cases "\<not> isfile w2 fp \<or> overwrite")
      case True
      then obtain w3 where w3: "open_write w2 fp js = Inr w3"
        using ok d by (auto split: sum.splits)
      then show ?thesis using ok d True uuid_open_write[OF w3] u by (simp add: w2_def fp_def)
    next
      case False
      then show ?thesis using ok d u by (simp add: w2_def fp_def)
    qed
  qed
  show ?thesis using a b by blast
qed

theorem dump_unknown_mode_witness:
  "''sha1'' \<noteq> ''md5''
   \<and> dump cfg_ex obj_ex ''sha1'' False w_fresh = dump cfg_ex obj_ex ''uuid'' False w_fresh
   \<and> fst (dump cfg_ex obj_ex ''sha1'' False w_fresh) = Inr ''/home/u/.cdf2cim/uuid.json''
   \<and> uuid_count (snd (dump cfg_ex obj_ex ''sha1'' False w_fresh)) = Suc (uuid_count w_fresh)"
proof -
  have n: "''sha1'' \<noteq> ''md5''" by simp
  have h: "fst (dump cfg_ex obj_ex ''sha1'' False w_fresh) = Inr ''/home/u/.cdf2cim/uuid.json''"
    by (simp add: dump_def Let_def cfg_ex_def obj_ex_def w_fresh_def value_defs path_defs fs_defs)
  from dump_unknown_mode[OF n, of cfg_ex obj_ex False w_fresh] h n show ?thesis by blast
qed

text \<open>
  Claim C10.  \<^verbatim>\<open>encode\<close> is not total: a key ending in \<^verbatim>\<open>_index\<close> whose value is \<^verbatim>\<open>None\<close> makes it
  raise \<^verbatim>\<open>TypeError\<close>, one whose value is a non-numeric string \<^verbatim>\<open>ValueError\<close>.  Whenever
  \<^verbatim>\<open>encode\<close> raises, \<^verbatim>\<open>dump\<close> raises too (the exception of \<^verbatim>\<open>encode\<close>, or \<^verbatim>\<open>OSError\<close> when the
  output directory could not be created before), performs no write, leaves every
  regular file as it was, and its outcome does not depend on the serializer.
\<close>

theorem encode_not_total:
  "encode [(''x_index'', PNone)] = Inl TypeError
   \<and> encode [(''x_index'', PStr ''abc'')] = Inl ValueError
   \<and> (\<forall>obj e cfg name overwrite w.
        encode obj = Inl e \<longrightarrow>
          (\<exists>e' w'. dump cfg obj name overwrite w = (Inl e', w')
              \<and> (e' = e \<or> e' = OSError)
              \<and> writes w' = writes w \<and> files_of w' = files_of w)
          \<and> (\<forall>f. dump (cfg\<lparr>json_dumps := f\<rparr>) obj name overwrite w = dump cfg obj name overwrite w))"
proof -
  have a: "encode [(''x_index'', PNone)] = Inl TypeError"
    by (simp add: encode_def dict_keys_def dict_get_def encode_value_def
        isinstance_float64_def isinstance_int32_def endswith_def)
  have b: "encode [(''x_index'', PStr ''abc'')] = Inl ValueError"
    by (simp add: encode_def dict_keys_def dict_get_def encode_value_def
        isinstance_float64_def isinstance_int32_def endswith_def int_of_str_def strip_def
        is_space_def parse_digits_def is_digit_def)
  have c: "\<exists>e' w'. dump cfg obj name overwrite w = (Inl e', w')
              \<and> (e' = e \<or> e' = OSError)
              \<and> writes w' = writes w \<and> files_of w' = files_of w"
    if "encode obj = Inl e" for obj e cfg name overwrite w
  proof (cases "isdir w (IO_DIR cfg)")
    case True
    then show ?thesis using that by (simp add: dump_def)
  next
    case False
    show ?thesis
    proof (cases "os_mkdir w (IO_DIR cfg)")
      case (Inl e0)
      then have "e0 = OSError" by (auto simp: os_mkdir_def split: if_splits)
      then show ?thesis using False Inl by (simp add: dump_def)
    next
      case (Inr w1)
      then show ?thesis using False that isdir_os_mkdir[OF Inr] by (simp add: dump_def)
    qed
  qed
  have d: "dump (cfg\<lparr>json_dumps := f\<rparr>) obj name overwrite w = dump cfg obj name overwrite w"
    if "encode obj = Inl e" for obj e cfg name overwrite w f
    using that by (simp add: dump_def split: sum.splits)
  show ?thesis using a b c d by blast
qed

theorem encode_not_total_witness:
  "encode [(''x_index'', PNone)] = Inl TypeError
   \<and> dump cfg_ex [(''x_index'', PNone)] ''md5'' False w_archived = (Inl TypeError, w_archived)
   \<and> (\<exists>e' w'. dump cfg_ex [(''x_index'', PNone)] ''md5'' False w_fresh = (Inl e', w')
          \<and> (e' = TypeError \<or> e' = OSError)
          \<and> writes w' = writes w_fresh \<and> files_of w' = files_of w_fresh)"
proof -
  have e: "encode [(''x_index'', PNone)] = Inl TypeError"
    using encode_not_total by blast
  have d: "dump cfg_ex [(''x_index'', PNone)] ''md5'' False w_archived = (Inl TypeError, w_archived)"
    using e by (simp add: dump_def cfg_ex_def w_archived_def isdir_def)
  from encode_not_total e d show ?thesis by blast
qed

section \<open>Properties of \<^verbatim>\<open>yield_files\<close> and \<^verbatim>\<open>yield_cf_files\<close>\<close>


lemma well_ordered_remdups: "well_ordered remdups"
  by (simp add: well_ordered_def)



text \<open>
  A single string that names no existing path is wrapped into a list first; the exception
  carries that list.
\<close>

lemma yield_files_missing_string:
  assumes "\<not> exists w p"
  shows "yield_files order w fuel (PStr p) = Some (Inl (InvalidFileSearchCriteria (PList [PStr p])))"
  using assms
  by (simp add: yield_files_def Let_def isinstance_basestring_def isinstance_Iterable_def
      strings_of_def List.map_filter_simps)

lemma cf_loop_io:
  assumes "\<forall>p \<in> set fpaths. \<forall>e. cf_read p = Inl e \<longrightarrow> e = IOError \<or> e = OSError"
  shows "cf_loop cf_read fpaths w =
          (List.map_filter (\<lambda>p. case cf_read p of Inl e \<Rightarrow> None | Inr f \<Rightarrow> Some f) fpaths,
           None,
           w\<lparr>trace := trace w @ map (\<lambda>p. case cf_read p of
                                          Inl e \<Rightarrow> Warning (''Non netCDF file rejected: '' @ p)
                                        | Inr f \<Rightarrow> CloseOneFile) fpaths\<rparr>)"
  using assms
proof (induction fpaths arbitrary: w)
  case Nil
  then show ?case by (simp add: List.map_filter_simps)
next
  case (Cons p ps)
  then have ih: "\<And>w. cf_loop cf_read ps w =
          (List.map_filter (\<lambda>p. case cf_read p of Inl e \<Rightarrow> None | Inr f \<Rightarrow> Some f) ps,
           None,
           w\<lparr>trace := trace w @ map (\<lambda>p. case cf_read p of
                                          Inl e \<Rightarrow> Warning (''Non netCDF file rejected: '' @ p)
                                        | Inr f \<Rightarrow> CloseOneFile) ps\<rparr>)"
    by simp
  show ?case
  proof (cases "cf_read p")
    case (Inl e)
    then have "e = IOError \<or> e = OSError" using Cons.prems by simp
    then show ?thesis using Inl ih by (auto simp: List.map_filter_simps log_warning_def)
  next
    case (Inr f)
    then show ?thesis using ih by (simp add: List.map_filter_simps close_one_file_def)
  qed
qed

text \<open>
  Claim C8.  A path whose opening raises \<^verbatim>\<open>IOError\<close> or \<^verbatim>\<open>OSError\<close> yields no record: a
  warning naming it is logged and the loop goes on with the next path.  Hence, when
  every failure of the reader on the paths of \<^verbatim>\<open>yield_files\<close> is of that kind,
  \<^verbatim>\<open>yield_cf_files\<close> ends with no exception, yields the records of exactly the paths that
  open, in order, and logs one warning for each of the others.
\<close>

theorem yield_cf_files_skips:
  "(\<forall>p ps w e. cf_read p = Inl e \<and> (e = IOError \<or> e = OSError) \<longrightarrow>
       cf_loop cf_read (p # ps) w
         = cf_loop cf_read ps (log_warning w (''Non netCDF file rejected: '' @ p)))
   \<and> (\<forall>order w fuel targets fpaths.
        yield_files order w fuel targets = Some (Inr fpaths)
        \<and> (\<forall>p \<in> set fpaths. \<forall>e. cf_read p = Inl e \<longrightarrow> e = IOError \<or> e = OSError) \<longrightarrow>
        yield_cf_files order cf_read w fuel targets =
          Some (List.map_filter (\<lambda>p. case cf_read p of Inl e \<Rightarrow> None | Inr f \<Rightarrow> Some f) fpaths,
                None,
                w\<lparr>trace := trace w @ map (\<lambda>p. case cf_read p of
                                          Inl e \<Rightarrow> Warning (''Non netCDF file rejected: '' @ p)
                                        | Inr f \<Rightarrow> CloseOneFile) fpaths\<rparr>))"
proof (intro conjI allI impI)
  fix p ps w e
  assume "cf_read p = Inl e \<and> (e = IOError \<or> e = OSError)"
  then show "cf_loop cf_read (p # ps) w
         = cf_loop cf_read ps (log_warning w (''Non netCDF file rejected: '' @ p))"
    by auto
next
  fix order w fuel targets fpaths
  assume "yield_files order w fuel targets = Some (Inr fpaths)
        \<and> (\<forall>p \<in> set fpaths. \<forall>e. cf_read p = Inl e \<longrightarrow> e = IOError \<or> e = OSError)"
  then show "yield_cf_files order cf_read w fuel targets =
          Some (List.map_filter (\<lambda>p. case cf_read p of Inl e \<Rightarrow> None | Inr f \<Rightarrow> Some f) fpaths,
                None,
                w\<lparr>trace := trace w @ map (\<lambda>p. case cf_read p of
                                          Inl e \<Rightarrow> Warning (''Non netCDF file rejected: '' @ p)
                                        | Inr f \<Rightarrow> CloseOneFile) fpaths\<rparr>)"
    using cf_loop_io[of fpaths cf_read w] by (simp add: yield_cf_files_def)
qed

lemma yield_run1:
  "yield_files remdups w_run1 1 (PList [PStr ''/data/run1''])
     = Some (Inr [''/data/run1/a.nc'', ''/data/run1/b.nc'', ''/data/run1/c.txt''])"
  by (simp add: locator_defs w_run1_def value_defs path_defs fs_defs)

theorem yield_cf_files_skips_witness:
  "yield_files remdups w_run1 1 (PList [PStr ''/data/run1''])
     = Some (Inr [''/data/run1/a.nc'', ''/data/run1/b.nc'', ''/data/run1/c.txt''])
   \<and> nc_reader ''/data/run1/c.txt'' = Inl IOError
   \<and> yield_cf_files remdups nc_reader w_run1 1 (PList [PStr ''/data/run1''])
     = Some ([''/data/run1/a.nc'', ''/data/run1/b.nc''], None,
             w_run1\<lparr>trace := [CloseOneFile, CloseOneFile,
                                Warning ''Non netCDF file rejected: /data/run1/c.txt'']\<rparr>)"
proof -
  have r: "nc_reader ''/data/run1/a.nc'' = Inr ''/data/run1/a.nc''"
    "nc_reader ''/data/run1/b.nc'' = Inr ''/data/run1/b.nc''"
    "nc_reader ''/data/run1/c.txt'' = Inl IOError"
    by (simp_all add: nc_reader_def endswith_def)
  have h: "\<forall>p \<in> set [''/data/run1/a.nc'', ''/data/run1/b.nc'', ''/data/run1/c.txt''].
             \<forall>e. nc_reader p = Inl e \<longrightarrow> e = IOError \<or> e = OSError"
    using r by simp
  have t: "trace w_run1 = []" by (simp add: w_run1_def)
  have "yield_cf_files remdups nc_reader w_run1 1 (PList [PStr ''/data/run1'']) =
          Some (List.map_filter (\<lambda>p. case nc_reader p of Inl e \<Rightarrow> None | Inr f \<Rightarrow> Some f)
                   [''/data/run1/a.nc'', ''/data/run1/b.nc'', ''/data/run1/c.txt''],
                None,
                w_run1\<lparr>trace := trace w_run1 @ map (\<lambda>p. case nc_reader p of
                                          Inl e \<Rightarrow> Warning (''Non netCDF file rejected: '' @ p)
                                        | Inr f \<Rightarrow> CloseOneFile)
                        [''/data/run1/a.nc'', ''/data/run1/b.nc'', ''/data/run1/c.txt'']\<rparr>)"
    using yield_cf_files_skips[of nc_reader] yield_run1 h by blast
  then show ?thesis using yield_run1 r t by (simp add: List.map_filter_simps)
qed

lemma one_element:
  assumes "distinct cs" "set cs = {a}"
  shows "cs = [a]"
proof -
  have "length cs = 1" using assms distinct_card[of cs] by simp
  then obtain x where "cs = [x]" by (cases cs) auto
  then show ?thesis using assms by auto
qed

lemma two_elements:
  assumes "distinct cs" "set cs = {a, b}" "a \<noteq> b"
  shows "cs = [a, b] \<or> cs = [b, a]"
proof -
  have "length cs = 2" using assms distinct_card[of cs] by simp
  then obtain x y where "cs = [x, y]"
    by (metis (no_types) length_0_conv length_Suc_conv numeral_2_eq_2)
  then show ?thesis using assms by auto
qed

text \<open>
  Claim C4 at the root directory.  \<^verbatim>\<open>dirname('/')\<close> is \<^verbatim>\<open>'/'\<close> itself, so the de-duplication
  removes the criterion \<^verbatim>\<open>'/'\<close> because it finds it in the set; the file \<^verbatim>\<open>'/f'\<close>, examined
  next, then stays.  Resolving \<^verbatim>\<open>['/', '/f']\<close> yields \<^verbatim>\<open>/f\<close>, resolving \<^verbatim>\<open>['/']\<close> alone yields
  nothing, in whatever order the set iterates.
\<close>

theorem yield_files_root:
  assumes "well_ordered order"
  shows "yield_files order w_root fuel (PList [PStr ''/'', PStr ''/f'']) = Some (Inr [''/f''])
       \<and> yield_files order w_root fuel (PList [PStr ''/'']) = Some (Inr [])"
proof -
  have o1: "order [''/''] = [''/'']"
  proof -
    have "distinct (order [''/'']) \<and> set (order [''/'']) = {''/''}"
      using assms by (simp add: well_ordered_def)
    then show ?thesis by (simp add: one_element)
  qed
  have "distinct (order [''/'', ''/f'']) \<and> set (order [''/'', ''/f'']) = {''/'', ''/f''}"
    using assms by (simp add: well_ordered_def)
  then have o2: "order [''/'', ''/f''] = [''/'', ''/f''] \<or> order [''/'', ''/f''] = [''/f'', ''/'']"
    using two_elements[of "order [''/'', ''/f'']" "''/''" "''/f''"] by simp
  have a: "yield_files order w_root fuel (PList [PStr ''/'']) = Some (Inr [])"
    using o1 by (simp add: locator_defs w_root_def value_defs path_defs fs_defs)
  have b: "yield_files order w_root fuel (PList [PStr ''/'', PStr ''/f'']) = Some (Inr [''/f''])"
    using o2 by (auto simp: locator_defs w_root_def value_defs path_defs fs_defs)
  show ?thesis using a b by simp
qed

theorem yield_files_root_witness:
  "well_ordered remdups
   \<and> isdir w_root ''/'' \<and> isfile w_root ''/f'' \<and> dirname ''/f'' = ''/''
   \<and> yield_files remdups w_root 3 (PList [PStr ''/'', PStr ''/f'']) = Some (Inr [''/f''])
   \<and> yield_files remdups w_root 3 (PList [PStr ''/'']) = Some (Inr [])"
proof -
  have "isdir w_root ''/'' \<and> isfile w_root ''/f'' \<and> dirname ''/f'' = ''/''"
    by (simp add: w_root_def isdir_def isfile_def path_defs)
  with yield_files_root[OF well_ordered_remdups, of 3] well_ordered_remdups
  show ?thesis by simp
qed

lemma prefix_rev_dropWhile: "prefix (rev (dropWhile P (rev xs))) xs"
proof -
  have "rev (dropWhile P (rev xs)) @ rev (takeWhile P (rev xs)) = xs"
    by (metis rev_append rev_rev_ident takeWhile_dropWhile_id)
  then show ?thesis by (metis prefixI)
qed

lemma prefix_dirname: "prefix (dirname p) p"
proof -
  define head where "head = rev (dropWhile (\<lambda>c. \<not> is_slash c) (rev p))"
  have a: "prefix head p" unfolding head_def by (rule prefix_rev_dropWhile)
  have "prefix (rstrip_slash head) head" unfolding rstrip_slash_def by (rule prefix_rev_dropWhile)
  then have "prefix (rstrip_slash head) p" using a by (rule prefix_order.trans)
  then show ?thesis using a by (simp add: dirname_def Let_def head_def)
qed

lemma prefix_le: "prefix xs ys \<Longrightarrow> xs \<le> (ys :: string)"
proof (induction xs arbitrary: ys)
  case Nil
  then show ?case by simp
next
  case (Cons x xs)
  then obtain zs where "ys = x # zs" "prefix xs zs" by (cases ys) auto
  then show ?case using Cons.IH by simp
qed

text \<open>
  Away from the root the de-duplication removes the child: for a directory that is not
  its own \<^verbatim>\<open>dirname\<close> and a file whose \<^verbatim>\<open>dirname\<close> is that directory, the two criteria yield
  what the directory alone yields.
\<close>

lemma yield_files_parent_dedup:
  assumes "well_ordered order" and "isdir w D" and "isfile w F"
    and "dirname F = D" and "dirname D \<noteq> D"
  shows "yield_files order w fuel (PList [PStr D, PStr F]) = yield_files order w fuel (PList [PStr D])"
proof -
  have ne: "D \<noteq> F" using assms(2,3) by (auto simp: isdir_def isfile_def split: option.splits node.splits)
  have ex: "exists w D" "exists w F"
    using assms(2,3) by (auto simp: exists_def isdir_def isfile_def split: option.splits node.splits)
  have le: "D \<le> F" using prefix_dirname[of F] assms(4) by (simp add: prefix_le)
  have nf: "dirname D \<noteq> F"
  proof
    assume "dirname D = F"
    then have "prefix F D" using prefix_dirname[of D] by simp
    moreover have "prefix D F" using prefix_dirname[of F] assms(4) by simp
    ultimately show False using ne by (simp add: prefix_order.eq_iff)
  qed
  have o1: "order [D] = [D]"
    using assms(1) one_element[of "order [D]" D] by (simp add: well_ordered_def)
  have o2: "order [D, F] = [D, F] \<or> order [D, F] = [F, D]"
    using assms(1) two_elements[of "order [D, F]" D F] ne by (simp add: well_ordered_def)
  have s: "sort (order [D, F]) = [D, F]"
    using o2 le ne by (auto simp: insort_is_Cons)
  have d2: "dedupe (sort (order [D, F])) (order [D, F]) = [D]"
    unfolding s using o2 assms(4,5) nf ne by auto
  have d1: "dedupe (sort (order [D])) (order [D]) = [D]"
    unfolding o1 using assms(5) by simp
  show ?thesis using ex d1 d2
    by (simp add: yield_files_def Let_def isinstance_basestring_def isinstance_Iterable_def
        strings_of_def List.map_filter_simps)
qed

subsection \<open>The shape of the yielded paths\<close>





lemma split_slash_nonempty [simp]: "split_slash s \<noteq> []"
  by (induction s) (auto split: list.splits)
























lemma those_map_Some:
  "those (map g ds) = Some below \<Longrightarrow> below = map (\<lambda>d. the (g d)) ds \<and> (\<forall>d \<in> set ds. g d \<noteq> None)"
  by (induction ds arbitrary: below) (auto split: option.splits)















lemma dedupe_subset: "set (dedupe ts cs) \<subseteq> set cs"
proof (induction ts arbitrary: cs)
  case Nil
  then show ?case by simp
next
  case (Cons t ts)
  have "set (dedupe ts (removeAll t cs)) \<subseteq> set cs" using Cons[of "removeAll t cs"] by auto
  then show ?case using Cons[of cs] by simp
qed



text \<open>
  Fuel only decides whether the walk is seen to end: once it suffices, more fuel gives
  the same result.
\<close>

lemma walk_fuel_Suc: "walk w n topdir = Some triples \<Longrightarrow> walk w (Suc n) topdir = Some triples"
proof (induction n arbitrary: topdir triples)
  case 0
  then show ?case by simp
next
  case (Suc n)
  show ?case
  proof (cases "listdir w topdir")
    case (Inl e)
    then show ?thesis using Suc.prems by simp
  next
    case (Inr names)
    define dirs where "dirs = filter (\<lambda>name. isdir w (join topdir name)) names"
    define nondirs where "nondirs = filter (\<lambda>name. \<not> isdir w (join topdir name)) names"
    have unfold: "walk w (Suc k) topdir =
        map_option (\<lambda>below. (topdir, dirs, nondirs) # concat below)
          (those (map (\<lambda>name. walk w k (join topdir name)) dirs))" for k
      using Inr by (simp add: Let_def dirs_def nondirs_def)
    obtain below where below: "those (map (\<lambda>name. walk w n (join topdir name)) dirs) = Some below"
      using Suc.prems unfolding unfold by auto
    have "\<forall>d \<in> set dirs. walk w n (join topdir d) \<noteq> None"
      using those_map_Some[OF below] by simp
    then have eq: "map (\<lambda>name. walk w (Suc n) (join topdir name)) dirs
             = map (\<lambda>name. walk w n (join topdir name)) dirs"
      using Suc.IH by (intro map_cong) auto
    have "walk w (Suc (Suc n)) topdir = walk w (Suc n) topdir"
      by (simp only: unfold eq)
    then show ?thesis using Suc.prems by simp
  qed
qed

lemma walk_fuel_mono: "walk w n topdir = Some triples \<Longrightarrow> n \<le> m \<Longrightarrow> walk w m topdir = Some triples"
proof (induction m)
  case 0
  then show ?case by simp
next
  case (Suc m)
  show ?case
  proof (cases "n \<le> m")
    case True
    then show ?thesis using Suc walk_fuel_Suc by blast
  next
    case False
    then have "n = Suc m" using Suc.prems(2) by simp
    then show ?thesis using Suc.prems(1) by simp
  qed
qed

lemma yield_targets_fuel_mono:
  "yield_targets w n S = Some paths \<Longrightarrow> n \<le> m \<Longrightarrow> yield_targets w m S = Some paths"
proof (induction S arbitrary: paths)
  case Nil
  then show ?case by simp
next
  case (Cons t S)
  then obtain ps rest where ps: "yield_target w n t = Some ps"
    and rest: "yield_targets w n S = Some rest" and paths: "paths = ps @ rest"
    by (auto split: option.splits)
  have "yield_target w m t = Some ps"
    using ps Cons.prems(2) by (auto simp: yield_target_def split: if_splits dest: walk_fuel_mono)
  then show ?case using Cons.IH[OF rest Cons.prems(2)] paths by simp
qed

lemma yield_files_fuel_mono:
  "yield_files order w n criteria = Some r \<Longrightarrow> n \<le> m \<Longrightarrow> yield_files order w m criteria = Some r"
  by (auto simp: yield_files_def Let_def split: if_splits dest: yield_targets_fuel_mono)








end
